theory Spec2Isabelle
  imports Main
begin

section \<open>Values thrown by JavaScript code\<close>

text \<open>
  The helpers in \<^verbatim>\<open>src/utils/windows-helpers.ts\<close> inspect a caught value in two ways:
  \<^verbatim>\<open>error instanceof Error\<close> (then they read \<^verbatim>\<open>error.message\<close>) and
  \<^verbatim>\<open>"code" in error && error.code === "ENOENT"\<close>. A thrown value is therefore
  modelled by what these tests can see: whether it is an \<^verbatim>\<open>Error\<close> instance, its
  message, and its \<^verbatim>\<open>code\<close> property (absent, a string such as \<^verbatim>\<open>"ENOENT"\<close>, or
  the numeric exit status that \<^verbatim>\<open>child_process.exec\<close> stores there).
\<close>

datatype err_code = NoCode | StrCode string | NumCode int

datatype thrown =
    ErrorObj string err_code   \<comment> \<open>an \<^verbatim>\<open>Error\<close> instance: message, code\<close>
  | NonError err_code          \<comment> \<open>any other thrown value, with its code property if any\<close>

section \<open>The bulk runner: \<^verbatim>\<open>processItemsWithRecovery\<close>\<close>

text \<open>
  \<^verbatim>\<open>
  const results = { successful: 0, failed: 0, errors: [] as string[] }
  for (let i = 0; i < items.length; i++) {
      try {
          await processor(items[i])
          results.successful++
      } catch (error) {
          results.failed++
          results.errors.push(error instanceof Error ? error.message : "Unknown error")
      }
      onProgress?.(i + 1, items.length)
  }
  return results
  \<close>
  The processor is effectful (it kills a process, say), so it is a function of the item
  and of the caller's world \<open>'w\<close>, returning the value it threw, if any, and the new
  world. The optional progress callback acts on the same world; it is called outside
  the \<^verbatim>\<open>try\<close> block, so a value it throws leaves the loop and rejects the promise.
  Every call the loop makes is appended to a log of events, so that the order and the
  arguments of the calls can be stated. The function returns the value that escaped
  (if any) together with the state reached; \<open>res\<close> of that state is the object
  the promise resolves to when nothing escaped.
\<close>

record results =
  successful :: nat
  failed :: nat
  errors :: "string list"

datatype 'a event =
    ProcessorCall 'a        \<comment> \<open>\<^verbatim>\<open>processor(items[i])\<close>\<close>
  | ProgressCall nat nat    \<comment> \<open>\<^verbatim>\<open>onProgress(completed, total)\<close>\<close>

type_synonym ('a, 'w) processor = "'a \<Rightarrow> 'w \<Rightarrow> thrown option \<times> 'w"

type_synonym 'w progress = "nat \<Rightarrow> nat \<Rightarrow> 'w \<Rightarrow> thrown option \<times> 'w"

record ('a, 'w) run_state =
  res :: results
  world :: 'w
  calls :: "'a event list"

definition error_text :: "thrown \<Rightarrow> string" where
  "error_text e = (case e of ErrorObj m c \<Rightarrow> m | NonError c \<Rightarrow> ''Unknown error'')"

definition try_item :: "('a, 'w) processor \<Rightarrow> 'a \<Rightarrow> ('a, 'w) run_state \<Rightarrow> ('a, 'w) run_state" where
  "try_item processor item st =
     (case processor item (world st) of
        (None, w') \<Rightarrow>
          st\<lparr>res := (res st)\<lparr>successful := successful (res st) + 1\<rparr>,
             world := w',
             calls := calls st @ [ProcessorCall item]\<rparr>
      | (Some e, w') \<Rightarrow>
          st\<lparr>res := (res st)\<lparr>failed := failed (res st) + 1,
                              errors := errors (res st) @ [error_text e]\<rparr>,
             world := w',
             calls := calls st @ [ProcessorCall item]\<rparr>)"

definition notify ::
  "'w progress option \<Rightarrow> nat \<Rightarrow> nat \<Rightarrow> ('a, 'w) run_state \<Rightarrow> thrown option \<times> ('a, 'w) run_state"
where
  "notify onProgress completed n st =
     (case onProgress of
        None \<Rightarrow> (None, st)
      | Some cb \<Rightarrow>
          (case cb completed n (world st) of
             (r, w') \<Rightarrow> (r, st\<lparr>world := w', calls := calls st @ [ProgressCall completed n]\<rparr>)))"

function items_loop ::
  "'a list \<Rightarrow> ('a, 'w) processor \<Rightarrow> 'w progress option \<Rightarrow> nat \<Rightarrow> ('a, 'w) run_state
     \<Rightarrow> thrown option \<times> ('a, 'w) run_state"
where
  "items_loop items processor onProgress i st =
     (if i < length items
      then (case notify onProgress (i + 1) (length items) (try_item processor (items ! i) st) of
              (None, st') \<Rightarrow> items_loop items processor onProgress (i + 1) st'
            | (Some e, st') \<Rightarrow> (Some e, st'))
      else (None, st))"
  by pat_completeness auto
termination
  by (relation "measure (\<lambda>(items, processor, onProgress, i, st). length items - i)") auto

declare items_loop.simps [simp del]

definition processItemsWithRecovery ::
  "'a list \<Rightarrow> ('a, 'w) processor \<Rightarrow> 'w progress option \<Rightarrow> 'w
     \<Rightarrow> thrown option \<times> ('a, 'w) run_state"
where
  "processItemsWithRecovery items processor onProgress w =
     items_loop items processor onProgress 0
       \<lparr>res = \<lparr>successful = 0, failed = 0, errors = []\<rparr>, world = w, calls = []\<rparr>"

text \<open>
  The arguments of the progress calls in a log, in order; and a callback that returns
  normally whatever it is given.
\<close>

fun progress_args :: "'a event \<Rightarrow> (nat \<times> nat) option" where
  "progress_args (ProcessorCall x) = None"
| "progress_args (ProgressCall completed n) = Some (completed, n)"

definition progress_calls :: "'a event list \<Rightarrow> (nat \<times> nat) list" where
  "progress_calls evs = List.map_filter progress_args evs"

definition quiet :: "'w progress \<Rightarrow> bool" where
  "quiet cb = (\<forall>completed n w. fst (cb completed n w) = None)"

text \<open>
  Sample callers, used to run the loop on concrete input: a processor that terminates
  the process with the given identifier and records it in the world, except that one
  identifier is refused; a processor that throws a value which is not an
  \<^verbatim>\<open>Error\<close> on every odd item; a progress callback that only returns; and one
  that throws.
\<close>

definition kill_unless :: "nat \<Rightarrow> (nat, nat list) processor" where
  "kill_unless k item w =
     (if item = k then (Some (ErrorObj ''Access is denied.'' (NumCode 1)), w)
      else (None, w @ [item]))"

definition reject_odd :: "(nat, nat list) processor" where
  "reject_odd item w = (if odd item then (Some (NonError NoCode), w) else (None, w @ [item]))"

definition silent_progress :: "nat list progress" where
  "silent_progress completed n w = (None, w)"

definition failing_progress :: "nat list progress" where
  "failing_progress completed n w = (Some (ErrorObj ''progress view is closed'' NoCode), w)"






section \<open>JavaScript strings\<close>

text \<open>
  A string is a list of characters. Isabelle's \<open>char\<close> has 256 values; they stand
  for the code units U+0000 to U+00FF, so the development covers the texts made of
  these. \<^verbatim>\<open>String.prototype.trim\<close> removes white space and line terminators at both
  ends; in this range they are tab, line feed, vertical tab, form feed, carriage return,
  space and the no-break space U+00A0.
\<close>

definition LF :: char where "LF = CHR 0x0A"
definition CR :: char where "CR = CHR 0x0D"
definition DQUOTE :: char where "DQUOTE = CHR 0x22"
definition BACKSLASH :: char where "BACKSLASH = CHR 0x5C"

definition js_whitespace :: "char \<Rightarrow> bool" where
  "js_whitespace c =
     (c = CHR 0x09 \<or> c = CHR 0x0A \<or> c = CHR 0x0B \<or> c = CHR 0x0C \<or> c = CHR 0x0D \<or>
      c = CHR 0x20 \<or> c = CHR 0xA0)"

definition js_trim :: "string \<Rightarrow> string" where
  "js_trim s = rev (dropWhile js_whitespace (rev (dropWhile js_whitespace s)))"

text \<open>\<^verbatim>\<open>s.replace(/"/g, "")\<close>: every double quote is removed.\<close>

definition strip_quotes :: "string \<Rightarrow> string" where
  "strip_quotes s = filter (\<lambda>c. c \<noteq> DQUOTE) s"

text \<open>
  \<^verbatim>\<open>s.split(/\r?\n/)\<close>: the text is scanned from the left; a line feed, or a carriage
  return directly followed by a line feed, ends the current piece. A carriage return
  that no line feed follows is an ordinary character. The first argument is the piece
  read so far.
\<close>

fun split_lines_from :: "string \<Rightarrow> string \<Rightarrow> string list" where
  "split_lines_from cur [] = [cur]"
| "split_lines_from cur [c] = (if c = LF then [cur, []] else [cur @ [c]])"
| "split_lines_from cur (c # d # cs) =
     (if c = LF then cur # split_lines_from [] (d # cs)
      else if c = CR \<and> d = LF then cur # split_lines_from [] cs
      else split_lines_from (cur @ [c]) (d # cs))"

definition split_lines :: "string \<Rightarrow> string list" where
  "split_lines s = split_lines_from [] s"

text \<open>\<^verbatim>\<open>s.split(",")\<close>: the pieces between the commas; never an empty array.\<close>

fun split_comma_from :: "string \<Rightarrow> string \<Rightarrow> string list" where
  "split_comma_from cur [] = [cur]"
| "split_comma_from cur (c # cs) =
     (if c = CHR '','' then cur # split_comma_from [] cs
      else split_comma_from (cur @ [c]) cs)"

definition split_comma :: "string \<Rightarrow> string list" where
  "split_comma s = split_comma_from [] s"

text \<open>
  Reading an array element gives \<^verbatim>\<open>undefined\<close> out of range (\<open>None\<close> here). In a
  condition, \<^verbatim>\<open>undefined\<close> and the empty string are falsy and every other string is
  truthy; \<^verbatim>\<open>x || ""\<close> is \<open>x\<close> when \<open>x\<close> is truthy and the empty string otherwise.
\<close>

definition js_index :: "'a list \<Rightarrow> nat \<Rightarrow> 'a option" where
  "js_index xs i = (if i < length xs then Some (xs ! i) else None)"

definition truthy :: "string option \<Rightarrow> bool" where
  "truthy v = (case v of None \<Rightarrow> False | Some s \<Rightarrow> s \<noteq> [])"

definition or_empty :: "string option \<Rightarrow> string" where
  "or_empty v = (case v of None \<Rightarrow> [] | Some s \<Rightarrow> if truthy v then s else [])"

text \<open>
  \<^verbatim>\<open>s.indexOf(p)\<close>, and \<^verbatim>\<open>s.replace(p, v)\<close> for a string pattern \<open>p\<close>: the first
  occurrence of \<open>p\<close> only is replaced, and the replacement text is the expansion of
  \<open>v\<close> by the language's \<^verbatim>\<open>GetSubstitution\<close>: \<^verbatim>\<open>$$\<close> is a dollar sign,
  \<^verbatim>\<open>$&\<close> the matched text, \<^verbatim>\<open>$`\<close> the text before the match and \<^verbatim>\<open>$'\<close> the text
  after it. A string pattern has no capture groups, so \<^verbatim>\<open>$1\<close>, \<^verbatim>\<open>$<name>\<close> and a
  dollar sign before any other character stand for themselves.
\<close>

definition starts_with :: "string \<Rightarrow> string \<Rightarrow> bool" where
  "starts_with p s = (take (length p) s = p)"

fun index_of :: "string \<Rightarrow> string \<Rightarrow> nat option" where
  "index_of p [] = (if p = [] then Some 0 else None)"
| "index_of p (c # cs) =
     (if starts_with p (c # cs) then Some 0 else map_option Suc (index_of p cs))"

fun get_substitution :: "string \<Rightarrow> string \<Rightarrow> string \<Rightarrow> string \<Rightarrow> string" where
  "get_substitution matched preceding following [] = []"
| "get_substitution matched preceding following [c] = [c]"
| "get_substitution matched preceding following (c # d # t) =
     (if c = CHR ''$'' \<and> d = CHR ''$'' then CHR ''$'' # get_substitution matched preceding following t
      else if c = CHR ''$'' \<and> d = CHR ''&'' then matched @ get_substitution matched preceding following t
      else if c = CHR ''$'' \<and> d = CHR 0x60 then preceding @ get_substitution matched preceding following t
      else if c = CHR ''$'' \<and> d = CHR 0x27 then following @ get_substitution matched preceding following t
      else c # get_substitution matched preceding following (d # t))"

definition js_replace :: "string \<Rightarrow> string \<Rightarrow> string \<Rightarrow> string" where
  "js_replace s p v =
     (case index_of p s of
        None \<Rightarrow> s
      | Some pos \<Rightarrow>
          (let preceding = take pos s;
               following = drop (pos + length p) s
           in preceding @ get_substitution p preceding following v @ following))"

section \<open>The executor: \<^verbatim>\<open>executeWindowsCommand\<close>\<close>

text \<open>
  \<^verbatim>\<open>
  try {
      const fullCommand = `chcp 65001 > nul && ${command}`
      const { stdout } = await execAsync(fullCommand)
      return stdout.trim()
  } catch (error) {
      if (error instanceof Error && "code" in error && (error as any).code === "ENOENT") {
          throw new Error("Command not found. Please ensure the tool is installed and in PATH.")
      }
      throw error
  }
  \<close>
  The operating system is a parameter: \<open>exec\<close> maps the command line handed to
  \<^verbatim>\<open>child_process.exec\<close> to the value the promise rejects with (\<open>Inl\<close>) or to the
  standard output it resolves with (\<open>Inr\<close>). An asynchronous function is modelled by
  the same sum: \<open>Inl\<close> the value its promise rejects with, \<open>Inr\<close> its result.
\<close>

type_synonym exec_env = "string \<Rightarrow> thrown + string"

definition is_enoent :: "thrown \<Rightarrow> bool" where
  "is_enoent e = (case e of ErrorObj m c \<Rightarrow> c = StrCode ''ENOENT'' | NonError c \<Rightarrow> False)"

definition command_not_found :: thrown where
  "command_not_found =
     ErrorObj ''Command not found. Please ensure the tool is installed and in PATH.'' NoCode"

definition executeWindowsCommand :: "exec_env \<Rightarrow> string \<Rightarrow> thrown + string" where
  "executeWindowsCommand exec command =
     (let fullCommand = ''chcp 65001 > nul && '' @ command
      in case exec fullCommand of
           Inr stdout \<Rightarrow> Inr (js_trim stdout)
         | Inl e \<Rightarrow> if is_enoent e then Inl command_not_found else Inl e)"

text \<open>
  Two sample systems: one where the shell cannot be started because it does not exist,
  one where starting it is refused. Each rejects with the error Node.js builds for the
  failed \<^verbatim>\<open>spawn\<close>.
\<close>

definition shell_missing :: exec_env where
  "shell_missing c = Inl (ErrorObj ''spawn cmd.exe ENOENT'' (StrCode ''ENOENT''))"

definition shell_refused :: exec_env where
  "shell_refused c = Inl (ErrorObj ''spawn cmd.exe EACCES'' (StrCode ''EACCES''))"

section \<open>The table parser: \<^verbatim>\<open>parseWindowsCSV\<close>\<close>

text \<open>
  \<^verbatim>\<open>
  return csvOutput
      .trim()
      .split(/\r?\n/)
      .map(line => line.replace(/"/g, "").split(","))
      .filter(parts => parts.length > 0 && parts[0])
  \<close>
\<close>

definition parseWindowsCSV :: "string \<Rightarrow> string list list" where
  "parseWindowsCSV csvOutput =
     filter (\<lambda>parts. length parts > 0 \<and> truthy (js_index parts 0))
       (map (\<lambda>line. split_comma (strip_quotes line))
         (split_lines (js_trim csvOutput)))"

section \<open>The process list: \<^verbatim>\<open>getProcessList\<close>\<close>

text \<open>
  \<^verbatim>\<open>
  const output = await executeWindowsCommand("tasklist /nh /fo csv")
  return parseWindowsCSV(output).map(parts => ({
      name: parts[0] || "", pid: parts[1] || "", sessionName: parts[2] || "",
      sessionNumber: parts[3] || "", memoryUsage: parts[4] || ""
  }))
  \<close>
\<close>

record process_info =
  name :: string
  pid :: string
  sessionName :: string
  sessionNumber :: string
  memoryUsage :: string

definition to_process :: "string list \<Rightarrow> process_info" where
  "to_process parts =
     \<lparr>name = or_empty (js_index parts 0),
      pid = or_empty (js_index parts 1),
      sessionName = or_empty (js_index parts 2),
      sessionNumber = or_empty (js_index parts 3),
      memoryUsage = or_empty (js_index parts 4)\<rparr>"

definition getProcessList :: "exec_env \<Rightarrow> thrown + process_info list" where
  "getProcessList exec =
     (case executeWindowsCommand exec ''tasklist /nh /fo csv'' of
        Inl e \<Rightarrow> Inl e
      | Inr output \<Rightarrow> Inr (map to_process (parseWindowsCSV output)))"

text \<open>
  Sample outputs of the process-listing command: two rows of which the second has a
  blank (one space) image name, and a system whose listing is the single row of a
  Notepad process using 15,000 K of memory.
\<close>

definition listing_blank_name :: string where
  \<open>listing_blank_name = ''"svchost.exe","4"'' @ [LF] @ ''" ","8"''\<close>

definition one_notepad :: exec_env where
  \<open>one_notepad c =
     (if c = ''chcp 65001 > nul && tasklist /nh /fo csv''
      then Inr ''"notepad.exe","1234","Console","1","15,000 K"''
      else Inl (ErrorObj ''unexpected command'' NoCode))\<close>

section \<open>The availability probe: \<^verbatim>\<open>isToolAvailable\<close>\<close>

text \<open>
  \<^verbatim>\<open>
  try {
      await executeWindowsCommand(`where ${toolName}`)
      return true
  } catch (error) {
      return false
  }
  \<close>
\<close>

definition isToolAvailable :: "exec_env \<Rightarrow> string \<Rightarrow> thrown + bool" where
  "isToolAvailable exec toolName =
     (case executeWindowsCommand exec (''where '' @ toolName) of
        Inr output \<Rightarrow> Inr True
      | Inl e \<Rightarrow> Inr False)"


section \<open>The template engine: \<^verbatim>\<open>parseCustomCommand\<close>\<close>

text \<open>
  \<^verbatim>\<open>
  const commandParts = command.match(/"[^"]+"|\\S+/g) || []
  if (commandParts.length === 0) {
      throw new Error("Invalid command format")
  }
  const executable = commandParts[0].replace(/"/g, "")
  const args = commandParts.slice(1).map(arg => {
      let processedArg = arg.replace(/"/g, "")
      Object.entries(replacements).forEach(([placeholder, value]) => {
          processedArg = processedArg.replace(placeholder, value)
      })
      return processedArg
  })
  return { executable, args }
  \<close>
  The regular expression is written as a literal, so its second alternative
  \<^verbatim>\<open>\\S+\<close> is an escaped backslash followed by one or more capital letters S. The
  first alternative is a double quote, one or more characters other than a double
  quote, and a double quote. The functions below give the text each alternative
  matches at the start of a string, if any; the first alternative is tried first.
\<close>

definition match_quoted :: "string \<Rightarrow> string option" where
  "match_quoted s =
     (case s of
        [] \<Rightarrow> None
      | c # cs \<Rightarrow>
          (let inner = takeWhile (\<lambda>x. x \<noteq> DQUOTE) cs;
               rest = dropWhile (\<lambda>x. x \<noteq> DQUOTE) cs
           in if c = DQUOTE \<and> inner \<noteq> [] \<and> rest \<noteq> []
              then Some (DQUOTE # inner @ [DQUOTE]) else None))"

definition match_backslash_S :: "string \<Rightarrow> string option" where
  "match_backslash_S s =
     (case s of
        [] \<Rightarrow> None
      | c # cs \<Rightarrow>
          (let run = takeWhile (\<lambda>x. x = CHR ''S'') cs
           in if c = BACKSLASH \<and> run \<noteq> [] then Some (BACKSLASH # run) else None))"

definition match_here :: "string \<Rightarrow> string option" where
  "match_here s = (case match_quoted s of Some m \<Rightarrow> Some m | None \<Rightarrow> match_backslash_S s)"

lemma match_here_length: "match_here s = Some m \<Longrightarrow> 0 < length m \<and> length m \<le> length s"
proof -
  assume a: "match_here s = Some m"
  have q: "match_quoted s = Some m \<Longrightarrow> 0 < length m \<and> length m \<le> length s"
  proof -
    assume "match_quoted s = Some m"
    then obtain c cs where s: "s = c # cs"
      and m: "m = DQUOTE # takeWhile (\<lambda>x. x \<noteq> DQUOTE) cs @ [DQUOTE]"
      and r: "dropWhile (\<lambda>x. x \<noteq> DQUOTE) cs \<noteq> []"
      by (auto simp: match_quoted_def Let_def split: list.splits if_splits)
    have "length (takeWhile (\<lambda>x. x \<noteq> DQUOTE) cs) + length (dropWhile (\<lambda>x. x \<noteq> DQUOTE) cs)
            = length cs"
      by (metis length_append takeWhile_dropWhile_id)
    moreover have "0 < length (dropWhile (\<lambda>x. x \<noteq> DQUOTE) cs)" using r by simp
    ultimately have "Suc (length (takeWhile (\<lambda>x. x \<noteq> DQUOTE) cs)) \<le> length cs"
      by linarith
    then show ?thesis using s m by simp
  qed
  have b: "match_backslash_S s = Some m \<Longrightarrow> 0 < length m \<and> length m \<le> length s"
  proof -
    assume "match_backslash_S s = Some m"
    then obtain c cs where s: "s = c # cs"
      and m: "m = BACKSLASH # takeWhile (\<lambda>x. x = CHR ''S'') cs"
      by (auto simp: match_backslash_S_def Let_def split: list.splits if_splits)
    have "length (takeWhile (\<lambda>x. x = CHR ''S'') cs) \<le> length cs"
      by (rule length_takeWhile_le)
    then show ?thesis using s m by simp
  qed
  from a q b show ?thesis
    by (auto simp: match_here_def split: option.splits)
qed

text \<open>
  \<^verbatim>\<open>command.match(re) || []\<close> with the global flag: the matches from left to right,
  each search starting where the previous match ended; where no alternative matches,
  the search moves one character on. No match at all gives \<^verbatim>\<open>null\<close>, which
  \<^verbatim>\<open>|| []\<close> turns into the empty array.
\<close>

function match_all :: "string \<Rightarrow> string list" where
  "match_all s =
     (if s = [] then []
      else (case match_here s of
              Some m \<Rightarrow> m # match_all (drop (length m) s)
            | None \<Rightarrow> match_all (tl s)))"
  by pat_completeness auto
termination
proof (relation "measure length")
  show "wf (measure length)" by simp
next
  fix s :: string and m :: string
  assume "s \<noteq> []" "match_here s = Some m"
  then show "(drop (length m) s, s) \<in> measure length"
    using match_here_length [of s m] by simp
next
  fix s :: string
  assume "s \<noteq> []" "match_here s = None"
  then show "(tl s, s) \<in> measure length" by (cases s) simp_all
qed

declare match_all.simps [simp del]

text \<open>
  \<open>replacements\<close> is the list \<^verbatim>\<open>Object.entries(replacements)\<close>: the placeholders
  with their values, in the order the object enumerates them.
\<close>

type_synonym replacements = "(string \<times> string) list"

record parsed_command =
  executable :: string
  args :: "string list"

definition substitute :: "replacements \<Rightarrow> string \<Rightarrow> string" where
  "substitute replacements arg =
     foldl (\<lambda>processedArg (placeholder, v). js_replace processedArg placeholder v)
       (strip_quotes arg) replacements"

definition invalid_command_format :: thrown where
  "invalid_command_format = ErrorObj ''Invalid command format'' NoCode"

definition parseCustomCommand :: "string \<Rightarrow> replacements \<Rightarrow> thrown + parsed_command" where
  "parseCustomCommand command replacements =
     (case match_all command of
        [] \<Rightarrow> Inl invalid_command_format
      | first # rest \<Rightarrow>
          Inr \<lparr>executable = strip_quotes first,
               args = map (substitute replacements) rest\<rparr>)"

text \<open>
  For the statement of what substitution does, a relation written independently of
  \<^verbatim>\<open>replace\<close>: \<open>first_occurrence_chain reps s t\<close> holds when \<open>t\<close> comes from
  \<open>s\<close> by going through the bindings in order and, for each, leaving the text as it is
  if the placeholder does not occur in it, and otherwise replacing the leftmost
  occurrence of the placeholder, and only that one, by the value.
\<close>

inductive first_occurrence_chain :: "replacements \<Rightarrow> string \<Rightarrow> string \<Rightarrow> bool" where
  finished: "first_occurrence_chain [] s s"
| absent:
    "(\<nexists>a b. s = a @ p @ b) \<Longrightarrow> first_occurrence_chain reps s t \<Longrightarrow>
     first_occurrence_chain ((p, v) # reps) s t"
| first_only:
    "s = a @ p @ b \<Longrightarrow> (\<forall>a' b'. s = a' @ p @ b' \<longrightarrow> length a \<le> length a') \<Longrightarrow>
     first_occurrence_chain reps (a @ v @ b) t \<Longrightarrow>
     first_occurrence_chain ((p, v) # reps) s t"












section \<open>Properties of the bulk runner\<close>

lemma try_item_counts:
  "successful (res (try_item p x st)) + failed (res (try_item p x st))
     = Suc (successful (res st) + failed (res st))"
  by (simp add: try_item_def split: prod.splits option.splits)

lemma try_item_errors:
  "length (errors (res st)) = failed (res st) \<Longrightarrow>
   length (errors (res (try_item p x st))) = failed (res (try_item p x st))"
  by (simp add: try_item_def split: prod.splits option.splits)

lemma try_item_calls: "calls (try_item p x st) = calls st @ [ProcessorCall x]"
  by (simp add: try_item_def split: prod.splits option.splits)

lemma notify_res: "notify onP c n st = (out, st') \<Longrightarrow> res st' = res st"
  by (auto simp: notify_def split: option.splits prod.splits)


lemma notify_None: "notify None c n st = (None, st)"
  by (simp add: notify_def)

lemma notify_quiet: "quiet cb \<Longrightarrow> fst (notify (Some cb) c n st) = None"
  by (simp add: notify_def quiet_def split: prod.splits) (metis fst_conv)

text \<open>
  The loop invariant for the counters: entering iteration \<open>i\<close> with \<open>i\<close> items
  counted and one message per failure, the loop ends with all items counted unless a
  value escaped from the callback, and with one message per failure in either case.
\<close>

lemma items_loop_counts:
  "items_loop items p onP i st = (out, st') \<Longrightarrow> i \<le> length items \<Longrightarrow>
   successful (res st) + failed (res st) = i \<Longrightarrow>
   length (errors (res st)) = failed (res st) \<Longrightarrow>
   (out = None \<longrightarrow> successful (res st') + failed (res st') = length items) \<and>
   length (errors (res st')) = failed (res st')"
proof (induction items p onP i st rule: items_loop.induct)
  case (1 items p onP i st)
  show ?case
  proof (cases "i < length items")
    case False
    with "1.prems" show ?thesis by (simp add: items_loop.simps)
  next
    case True
    obtain r st1 where n: "notify onP (i + 1) (length items) (try_item p (items ! i) st) = (r, st1)"
      by (cases "notify onP (i + 1) (length items) (try_item p (items ! i) st)")
    have r1: "res st1 = res (try_item p (items ! i) st)" using notify_res [OF n] .
    have c1: "successful (res st1) + failed (res st1) = i + 1"
      using r1 try_item_counts [of p "items ! i" st] "1.prems"(3) by simp
    have e1: "length (errors (res st1)) = failed (res st1)"
      using r1 try_item_errors [OF "1.prems"(4), of p "items ! i"] by simp
    show ?thesis
    proof (cases r)
      case None
      have "items_loop items p onP (i + 1) st1 = (out, st')"
        using "1.prems"(1) True n None by (simp add: items_loop.simps [of items p onP i])
      from "1.IH" [OF True n [symmetric] None this _ c1 e1] True show ?thesis by simp
    next
      case (Some e)
      have "out = Some e" "st' = st1"
        using "1.prems"(1) True n Some by (simp_all add: items_loop.simps [of items p onP i])
      with e1 show ?thesis by simp
    qed
  qed
qed





text \<open>
  The loop returns: without a callback nothing can escape, and the same holds with a
  callback that returns normally.
\<close>

lemma items_loop_no_callback:
  "items_loop items p onP i st = (out, st') \<Longrightarrow> onP = None \<Longrightarrow>
   out = None \<and> calls st' = calls st @ map ProcessorCall (drop i items)"
proof (induction items p onP i st rule: items_loop.induct)
  case (1 items p onP i st)
  show ?case
  proof (cases "i < length items")
    case False
    with "1.prems" show ?thesis by (simp add: items_loop.simps)
  next
    case True
    have n: "notify onP (i + 1) (length items) (try_item p (items ! i) st)
               = (None, try_item p (items ! i) st)"
      using "1.prems"(2) by (simp add: notify_None)
    have "items_loop items p onP (i + 1) (try_item p (items ! i) st) = (out, st')"
      using "1.prems"(1) True n by (simp add: items_loop.simps [of items p onP i])
    from "1.IH" [OF True n [symmetric] refl this "1.prems"(2)] True show ?thesis
      by (simp add: try_item_calls Cons_nth_drop_Suc [symmetric])
  qed
qed

lemma items_loop_quiet:
  "onP = Some cb \<Longrightarrow> quiet cb \<Longrightarrow> fst (items_loop items p onP i st) = None"
proof (induction items p onP i st rule: items_loop.induct)
  case (1 items p onP i st)
  show ?case
  proof (cases "i < length items")
    case False
    then show ?thesis by (simp add: items_loop.simps)
  next
    case True
    obtain r st1 where n: "notify onP (i + 1) (length items) (try_item p (items ! i) st) = (r, st1)"
      by (cases "notify onP (i + 1) (length items) (try_item p (items ! i) st)")
    have r: "r = None"
      using n notify_quiet [OF "1.prems"(2), of "i + 1" "length items" "try_item p (items ! i) st"]
        "1.prems"(1) by simp
    from "1.IH" [OF True n [symmetric] r "1.prems"] True n r show ?thesis
      by (simp add: items_loop.simps [of items p onP i])
  qed
qed

lemma processItemsWithRecovery_returns:
  "onProgress = None \<or> (\<exists>cb. onProgress = Some cb \<and> quiet cb) \<Longrightarrow>
   fst (processItemsWithRecovery items processor onProgress w) = None"
proof (cases onProgress)
  case None
  obtain out st where l: "processItemsWithRecovery items processor onProgress w = (out, st)"
    by (cases "processItemsWithRecovery items processor onProgress w")
  then show ?thesis
    using items_loop_no_callback [of items processor onProgress 0 _ out st] None
    by (simp add: processItemsWithRecovery_def)
next
  case (Some cb)
  assume "onProgress = None \<or> (\<exists>cb. onProgress = Some cb \<and> quiet cb)"
  with Some have "quiet cb" by simp
  then show ?thesis using Some
    by (simp add: processItemsWithRecovery_def items_loop_quiet)
qed

text \<open>
  A value thrown by the callback is not caught: the run below stops after the first
  item and rejects with that value.
\<close>

lemma processItemsWithRecovery_callback_throws:
  "processItemsWithRecovery [1, 2, 3] (kill_unless 2) (Some failing_progress) [] =
     (Some (ErrorObj ''progress view is closed'' NoCode),
      \<lparr>res = \<lparr>successful = 1, failed = 0, errors = []\<rparr>,
       world = [1],
       calls = [ProcessorCall 1, ProgressCall 1 3]\<rparr>)"
  by code_simp

text \<open>
  Claim C1. Whatever the items, the processor and the callback, the object the bulk
  runner returns counts every item once, as a success or as a failure, and holds one
  error message per failure: \<open>successful + failed\<close> is the number of items and
  \<open>errors\<close> has \<open>failed\<close> entries. (The runner returns whenever the callback is
  absent or returns normally: \<open>processItemsWithRecovery_returns\<close>.)
\<close>

theorem processItemsWithRecovery_counts:
  assumes "processItemsWithRecovery items processor onProgress w = (None, st)"
  shows "successful (res st) + failed (res st) = length items \<and>
         length (errors (res st)) = failed (res st)"
  using items_loop_counts [of items processor onProgress 0 _ None st] assms
  by (simp add: processItemsWithRecovery_def)

theorem processItemsWithRecovery_counts_witness:
  "processItemsWithRecovery [1, 2, 3] (kill_unless 2) (Some silent_progress) [] =
     (None,
      \<lparr>res = \<lparr>successful = 2, failed = 1, errors = [''Access is denied.'']\<rparr>,
       world = [1, 3],
       calls = [ProcessorCall 1, ProgressCall 1 3, ProcessorCall 2, ProgressCall 2 3,
                ProcessorCall 3, ProgressCall 3 3]\<rparr>) \<and>
   (2::nat) + 1 = length [1, 2, 3 :: nat] \<and>
   length [''Access is denied.''] = (1::nat)"
proof -
  have run: "processItemsWithRecovery [1, 2, 3] (kill_unless 2) (Some silent_progress) [] =
     (None,
      \<lparr>res = \<lparr>successful = 2, failed = 1, errors = [''Access is denied.'']\<rparr>,
       world = [1, 3],
       calls = [ProcessorCall 1, ProgressCall 1 3, ProcessorCall 2, ProgressCall 2 3,
                ProcessorCall 3, ProgressCall 3 3]\<rparr>)"
    by code_simp
  from processItemsWithRecovery_counts [OF run] run show ?thesis by simp
qed


lemma progress_calls_append:
  "progress_calls (xs @ ys) = progress_calls xs @ progress_calls ys"
  by (simp add: progress_calls_def map_filter_def)






text \<open>
  Claim C9. For the empty sequence of items the runner returns at once: nothing is
  thrown, both counters are 0, there is no error message, and neither the processor nor
  the progress callback has been called (the log is empty and the world is unchanged).
\<close>

theorem processItemsWithRecovery_empty:
  "processItemsWithRecovery [] processor onProgress w =
     (None, \<lparr>res = \<lparr>successful = 0, failed = 0, errors = []\<rparr>, world = w, calls = []\<rparr>)"
  by (simp add: processItemsWithRecovery_def items_loop.simps)


section \<open>Properties of the executor and of the availability probe\<close>

lemma is_enoent_iff: "is_enoent e = (\<exists>m. e = ErrorObj m (StrCode ''ENOENT''))"
  by (cases e) (simp_all add: is_enoent_def)

text \<open>
  Claim C6, as the specification states it, does not hold: a launch failure other than
  a missing executable is not classified at all. When starting the shell is refused,
  the executor rejects with the very error it caught, which is not the
  command-not-found error, and the source has no permission-denied error to map it to.
\<close>

theorem executeWindowsCommand_refused_unclassified:
  "executeWindowsCommand shell_refused ''tasklist''
     = Inl (ErrorObj ''spawn cmd.exe EACCES'' (StrCode ''EACCES'')) \<and>
   ErrorObj ''spawn cmd.exe EACCES'' (StrCode ''EACCES'') \<noteq> command_not_found"
  by (simp add: executeWindowsCommand_def shell_refused_def is_enoent_def command_not_found_def)

text \<open>
  Claim C6, amended. When the launch fails, the executor rejects; the failure is mapped
  to the command-not-found error exactly when the caught value is an \<^verbatim>\<open>Error\<close>
  whose code is \<^verbatim>\<open>"ENOENT"\<close>, and every other failure is passed on unchanged.
\<close>

theorem executeWindowsCommand_failure:
  assumes "exec (''chcp 65001 > nul && '' @ command) = Inl e"
  shows "executeWindowsCommand exec command =
           (if (\<exists>m. e = ErrorObj m (StrCode ''ENOENT'')) then Inl command_not_found else Inl e)"
  using assms by (simp add: executeWindowsCommand_def is_enoent_iff)

theorem executeWindowsCommand_failure_witness:
  "shell_missing (''chcp 65001 > nul && '' @ ''where es.exe'')
     = Inl (ErrorObj ''spawn cmd.exe ENOENT'' (StrCode ''ENOENT'')) \<and>
   executeWindowsCommand shell_missing ''where es.exe'' = Inl command_not_found"
proof -
  have h: "shell_missing (''chcp 65001 > nul && '' @ ''where es.exe'')
             = Inl (ErrorObj ''spawn cmd.exe ENOENT'' (StrCode ''ENOENT''))"
    by (simp add: shell_missing_def)
  from executeWindowsCommand_failure [of shell_missing "''where es.exe''", OF h] h
  show ?thesis by simp
qed

text \<open>
  Claim C10. The probe never rejects: for every tool name and every behaviour of the
  system it returns a boolean, which is true exactly when the command
  \<^verbatim>\<open>chcp 65001 > nul && where <toolName>\<close> succeeded, and false on every failure.
\<close>

theorem isToolAvailable_boolean:
  "isToolAvailable exec toolName =
     Inr (\<exists>out. exec (''chcp 65001 > nul && where '' @ toolName) = Inr out)"
proof (cases "exec (''chcp 65001 > nul && where '' @ toolName)")
  case (Inl e)
  then show ?thesis
    by (simp add: isToolAvailable_def executeWindowsCommand_def)
next
  case (Inr out)
  then show ?thesis
    by (simp add: isToolAvailable_def executeWindowsCommand_def)
qed


section \<open>Properties of the table parser\<close>

text \<open>
  Splitting into lines gives at least one line and no line contains a line feed; after
  the quotes are removed no double quote is left.
\<close>

lemma split_lines_from_not_Nil: "split_lines_from cur s \<noteq> []"
  by (induction cur s rule: split_lines_from.induct) simp_all

lemma split_lines_from_no_LF:
  "LF \<notin> set cur \<Longrightarrow> l \<in> set (split_lines_from cur s) \<Longrightarrow> LF \<notin> set l"
proof (induction cur s rule: split_lines_from.induct)
  case (1 cur)
  then show ?case by simp
next
  case (2 cur c)
  then show ?case by (auto split: if_splits)
next
  case (3 cur c d cs)
  show ?case
  proof (cases "c = LF")
    case True
    with "3.prems" have "l = cur \<or> l \<in> set (split_lines_from [] (d # cs))" by simp
    then show ?thesis using "3.prems"(1) "3.IH"(1) [OF True] by auto
  next
    case nl: False
    show ?thesis
    proof (cases "c = CR \<and> d = LF")
      case True
      with nl "3.prems" have "l = cur \<or> l \<in> set (split_lines_from [] cs)" by auto
      then show ?thesis using "3.prems"(1) "3.IH"(2) [OF nl True] by auto
    next
      case False
      with nl "3.prems" have "l \<in> set (split_lines_from (cur @ [c]) (d # cs))" by auto
      then show ?thesis using "3.IH"(3) [OF nl False] "3.prems"(1) nl by simp
    qed
  qed
qed

lemma strip_quotes_no_quote: "DQUOTE \<notin> set (strip_quotes s)"
  by (simp add: strip_quotes_def)

lemma split_comma_from_not_Nil: "split_comma_from cur s \<noteq> []"
  by (induction s arbitrary: cur) simp_all

lemma split_comma_not_Nil: "split_comma s \<noteq> []"
  by (simp add: split_comma_def split_comma_from_not_Nil)

text \<open>
  What splitting at commas means: the pieces hold the characters of the line other
  than the commas, in order; there is one piece more than there are commas; and no
  piece contains a comma.
\<close>

lemma split_comma_from_concat:
  "concat (split_comma_from cur s) = cur @ filter (\<lambda>c. c \<noteq> CHR '','') s"
  by (induction s arbitrary: cur) simp_all

lemma split_comma_from_length:
  "length (split_comma_from cur s) = Suc (length (filter (\<lambda>c. c = CHR '','') s))"
  by (induction s arbitrary: cur) simp_all

lemma split_comma_from_no_comma:
  "CHR '','' \<notin> set cur \<Longrightarrow> f \<in> set (split_comma_from cur s) \<Longrightarrow> CHR '','' \<notin> set f"
proof (induction s arbitrary: cur)
  case Nil
  then show ?case by simp
next
  case (Cons c s)
  show ?case
  proof (cases "c = CHR '',''")
    case True
    with Cons.prems have "f = cur \<or> f \<in> set (split_comma_from [] s)" by simp
    then show ?thesis using Cons.prems(1) Cons.IH [of "[]"] by auto
  next
    case False
    with Cons.prems have "f \<in> set (split_comma_from (cur @ [c]) s)" by simp
    then show ?thesis using Cons.IH [of "cur @ [c]"] Cons.prems(1) False by simp
  qed
qed

lemma keeps_row_iff:
  "(length parts > 0 \<and> truthy (js_index parts 0)) = (\<exists>f fs. parts = f # fs \<and> f \<noteq> [])"
  by (cases parts) (simp_all add: truthy_def js_index_def)

text \<open>
  Claim C2, as the specification states it, does not hold: a row is dropped only when
  its first field is the empty string, not when it is empty after trimming. In the
  listing below the second row's first field is one space, which trimming would empty,
  and the row is returned.
\<close>

theorem parseWindowsCSV_keeps_blank_first_field:
  \<open>parseWindowsCSV listing_blank_name = [[''svchost.exe'', ''4''], ['' '', ''8'']] \<and>
   js_trim '' '' = []\<close>
  by code_simp

text \<open>
  Claim C2, amended. The text is trimmed as a whole and split into lines; each line has
  its double quotes removed and is split at the commas. The result is exactly the rows
  whose first field is not the empty string (the field itself is not trimmed), in their
  original order.
\<close>

theorem parseWindowsCSV_rows:
  "parseWindowsCSV csvOutput =
     filter (\<lambda>parts. \<exists>f fs. parts = f # fs \<and> f \<noteq> [])
       (map (\<lambda>line. split_comma (strip_quotes line)) (split_lines (js_trim csvOutput)))"
  unfolding parseWindowsCSV_def keeps_row_iff ..

text \<open>
  Claim C5. On the headerless row of a Notepad process whose memory column reads
  \<^verbatim>\<open>"15,000 K"\<close>, the process list has one record, but its memory usage is
  \<^verbatim>\<open>15\<close>: the quotes are removed before the line is split, so the comma inside
  the fifth column splits it and the rest goes to a sixth field that is never read.
\<close>

theorem getProcessList_splits_memory_column:
  \<open>getProcessList one_notepad =
     Inr [\<lparr>name = ''notepad.exe'', pid = ''1234'', sessionName = ''Console'',
           sessionNumber = ''1'', memoryUsage = ''15''\<rparr>]\<close>
  by code_simp


section \<open>Properties of the template engine\<close>

subsection \<open>Finding and replacing the first occurrence\<close>





text \<open>
  The relation determines its result: the leftmost occurrence is unique, so two chains
  from the same text through the same bindings end in the same text.
\<close>

lemma first_occurrence_chain_unique:
  "first_occurrence_chain reps s t \<Longrightarrow> first_occurrence_chain reps s t' \<Longrightarrow> t = t'"
proof (induction arbitrary: t' rule: first_occurrence_chain.induct)
  case (finished s)
  then show ?case by (auto elim: first_occurrence_chain.cases)
next
  case (absent s p reps t v)
  from absent.prems show ?case
  proof (cases rule: first_occurrence_chain.cases)
    case (absent)
    then show ?thesis using absent.IH by simp
  next
    case (first_only a b)
    with absent.hyps(1) show ?thesis by blast
  qed
next
  case (first_only s a p b reps v t)
  from first_only.prems show ?case
  proof (cases rule: first_occurrence_chain.cases)
    case (absent)
    with first_only.hyps(1) show ?thesis by blast
  next
    case fo: (first_only a2 b2)
    have "length a = length a2"
      using first_only.hyps(1,2) fo(1,2) by (metis le_antisym)
    with first_only.hyps(1) fo(1) have "a = a2" "b = b2"
      by (metis append_eq_append_conv same_append_eq)+
    with fo(3) first_only.IH show ?thesis by simp
  qed
qed



subsection \<open>Which templates have a token\<close>

text \<open>
  A template has no token exactly when neither alternative of the regular expression
  matches at any of its positions. In particular a template without a double quote and
  without a backslash has none, however many words it has.
\<close>

lemma match_all_Nil_iff:
  "(match_all s = []) = (\<forall>k<length s. match_here (drop k s) = None)"
proof (induction s rule: match_all.induct)
  case (1 s)
  show ?case
  proof (cases "s = []")
    case True
    then show ?thesis by (simp add: match_all.simps)
  next
    case False
    then obtain c cs where s: "s = c # cs" by (cases s) auto
    show ?thesis
    proof (cases "match_here s")
      case (Some m)
      have "match_all s \<noteq> []" using False Some by (simp add: match_all.simps [of s])
      moreover have "\<not> (\<forall>k<length s. match_here (drop k s) = None)"
        using False Some by (auto intro: exI [of _ 0])
      ultimately show ?thesis by simp
    next
      case None
      have a: "match_all s = match_all cs"
        using s None by (simp add: match_all.simps [of "c # cs"])
      have ih: "(match_all cs = []) = (\<forall>k<length cs. match_here (drop k cs) = None)"
        using "1.IH"(1) [OF False None] s by simp
      have "(\<forall>k<length s. match_here (drop k s) = None)
              = (\<forall>k<length cs. match_here (drop k cs) = None)"
      proof
        assume h: "\<forall>k<length s. match_here (drop k s) = None"
        show "\<forall>k<length cs. match_here (drop k cs) = None"
        proof (intro allI impI)
          fix k assume "k < length cs"
          with h s have "match_here (drop (Suc k) s) = None" by auto
          with s show "match_here (drop k cs) = None" by simp
        qed
      next
        assume h: "\<forall>k<length cs. match_here (drop k cs) = None"
        show "\<forall>k<length s. match_here (drop k s) = None"
        proof (intro allI impI)
          fix k assume k: "k < length s"
          show "match_here (drop k s) = None"
          proof (cases k)
            case 0
            with None show ?thesis by simp
          next
            case (Suc j)
            with k s h show ?thesis by simp
          qed
        qed
      qed
      with a ih show ?thesis by simp
    qed
  qed
qed

lemma match_here_needs_mark:
  "match_here s = Some m \<Longrightarrow> s \<noteq> [] \<and> (hd s = DQUOTE \<or> hd s = BACKSLASH)"
  by (auto simp: match_here_def match_quoted_def match_backslash_S_def Let_def
           split: option.splits list.splits if_splits)

lemma match_all_unquoted:
  assumes "DQUOTE \<notin> set s" and "BACKSLASH \<notin> set s"
  shows "match_all s = []"
proof -
  have "\<forall>k<length s. match_here (drop k s) = None"
  proof (intro allI impI)
    fix k assume k: "k < length s"
    show "match_here (drop k s) = None"
    proof (cases "match_here (drop k s)")
      case None then show ?thesis .
    next
      case (Some m)
      from match_here_needs_mark [OF Some] have "hd (drop k s) = DQUOTE \<or> hd (drop k s) = BACKSLASH"
        by simp
      moreover have "hd (drop k s) = s ! k" using k by (simp add: hd_drop_conv_nth)
      moreover have "s ! k \<in> set s" using k by simp
      ultimately show ?thesis using assms by auto
    qed
  qed
  then show ?thesis by (simp add: match_all_Nil_iff)
qed










lemma parseCustomCommand_unquoted:
  assumes "DQUOTE \<notin> set command" and "BACKSLASH \<notin> set command"
  shows "parseCustomCommand command replacements = Inl invalid_command_format"
  using match_all_unquoted [OF assms] by (simp add: parseCustomCommand_def)

subsection \<open>The claims\<close>





text \<open>
  Claim C4. For the template \<^verbatim>\<open>notepad.exe "%s"\<close> with \<^verbatim>\<open>%s\<close> bound to
  \<^verbatim>\<open>C:/a b.txt\<close>, the only text the regular expression matches is the quoted span:
  \<^verbatim>\<open>notepad.exe\<close> has neither a double quote nor a backslash. The quoted
  placeholder therefore becomes the executable name, unsubstituted, and there is no
  argument.
\<close>

theorem parseCustomCommand_notepad:
  \<open>parseCustomCommand ''notepad.exe "%s"'' [(''%s'', ''C:/a b.txt'')] =
     Inr \<lparr>executable = ''%s'', args = []\<rparr>\<close>
  by code_simp

text \<open>
  Claim C8. The empty template has no token and is refused with the invalid-format
  error. But so is the template \<^verbatim>\<open>notepad.exe /A file.txt\<close>, which has three
  words: none of them has a double quote or a backslash, so the regular expression
  matches nowhere and the engine throws instead of returning a command.
\<close>

theorem parseCustomCommand_refuses_plain_words:
  "parseCustomCommand ''notepad.exe /A file.txt'' replacements = Inl invalid_command_format \<and>
   parseCustomCommand [] replacements = Inl invalid_command_format"
proof -
  have "match_all ''notepad.exe /A file.txt'' = []" by code_simp
  moreover have "match_all [] = []" by (simp add: match_all.simps)
  ultimately show ?thesis by (simp add: parseCustomCommand_def)
qed

end
